theory Spec2Isabelle
  imports Main
begin

section \<open>Events and raw input units\<close>

text \<open>
  The events of \<^verbatim>\<open>bpython.curtsiesfrontend.events\<close> and \<^verbatim>\<open>curtsies.events\<close> that
  \<^verbatim>\<open>bpython/curtsies.py\<close> names, and one constructor for every other subclass of
  \<^verbatim>\<open>curtsies.events.Event\<close> (signal, window change, ...). A paste event carries its list
  \<^verbatim>\<open>events\<close> of keypresses; a keypress is a key name, a Python \<^verbatim>\<open>str\<close>.
\<close>

datatype event =
    RefreshRequestEvent
  | ScheduledRefreshRequestEvent
  | ReloadEvent
  | UndoEvent
  | RunStartupFileEvent
  | PasteEvent (events: "string list")
  | CurtsiesEvent string

text \<open>
  What \<^verbatim>\<open>event_provider.send(timeout)\<close> returns and what the generator
  \<^verbatim>\<open>_combined_events\<close> yields: an instance of \<^verbatim>\<open>Event\<close>, the value \<^verbatim>\<open>None\<close>, or
  anything else, which is a keypress.
\<close>

datatype input = Event event | NoInput | Keypress string

text \<open>A timeout is \<^verbatim>\<open>None\<close> (block) or a number; \<^verbatim>\<open>0\<close> is the non-blocking probe.\<close>

type_synonym timeout = "nat option"

text \<open>
  Modelled from the spec: the raw input source \<^verbatim>\<open>curtsies.input.Input\<close> is not part of
  the repository. The spec gives it as \<^verbatim>\<open>fetch(timeout) -> RawUnit\<close>, with the timeout
  sentinel meaning "no input arrived within the requested wait". The provider is the list
  of the raw units it still has to deliver, one for each call of \<^verbatim>\<open>send\<close>, and a provider
  with nothing left to deliver answers \<^verbatim>\<open>None\<close>. The answer of a scripted provider does
  not depend on the timeout it is asked with.
\<close>

type_synonym event_provider = "input list"

definition send :: "timeout \<Rightarrow> event_provider \<Rightarrow> input \<times> event_provider" where
  "send t p = (case p of [] \<Rightarrow> (NoInput, []) | u # us \<Rightarrow> (u, us))"

section \<open>The event coalescer: \<^verbatim>\<open>_combined_events\<close>\<close>

text \<open>
  The probing loop of \<^verbatim>\<open>_combined_events\<close>:
  \<^verbatim>\<open>
      e = event_provider.send(0)
      while not (e is None or isinstance(e, curtsies.events.Event)):
          queue.append(e)
          e = event_provider.send(0)
  \<close>
  It returns the queue, the unit \<^verbatim>\<open>e\<close> that ended the loop and the provider. The first
  equation is \<^verbatim>\<open>send(0)\<close> on a provider with nothing left.
\<close>

fun probe :: "string list \<Rightarrow> event_provider \<Rightarrow> string list \<times> input \<times> event_provider" where
  "probe queue [] = (queue, NoInput, [])"
| "probe queue (Keypress k # p) = probe (queue @ [k]) p"
| "probe queue (e # p) = (queue, e, p)"

text \<open>
  The generator between two of its \<^verbatim>\<open>yield\<close>s. Its state is the deque \<^verbatim>\<open>queue\<close> and
  the provider it reads. The generator is suspended either at a \<^verbatim>\<open>yield\<close> followed by the
  head of \<^verbatim>\<open>while True\<close> (the queue is empty at each of them: \<^verbatim>\<open>yield e\<close>, \<^verbatim>\<open>yield None\<close>,
  \<^verbatim>\<open>yield paste\<close> after \<^verbatim>\<open>queue.clear()\<close>), or at \<^verbatim>\<open>yield queue.popleft()\<close> inside
  \<^verbatim>\<open>while len(queue)\<close>, which falls through to the head of \<^verbatim>\<open>while True\<close> when the queue
  is empty. So a non-empty queue resumes in the draining loop and an empty one at the
  fetch. \<^verbatim>\<open>resume\<close> is one \<^verbatim>\<open>send(timeout)\<close> to the generator: the value yielded and the
  new state. The unit \<^verbatim>\<open>e\<close> that ended the probing loop is not used after the loop.
\<close>

type_synonym coalescer = "string list \<times> event_provider"

definition resume :: "int \<Rightarrow> timeout \<Rightarrow> coalescer \<Rightarrow> input \<times> coalescer" where
  "resume paste_threshold t g =
     (case g of (queue, p) \<Rightarrow>
        if queue \<noteq> [] then (Keypress (hd queue), (tl queue, p))
        else
          (case send t p of
             (Event e, p1) \<Rightarrow> (Event e, ([], p1))
           | (NoInput, p1) \<Rightarrow> (NoInput, ([], p1))
           | (Keypress k, p1) \<Rightarrow>
               (case probe [k] p1 of (queue2, e, p2) \<Rightarrow>
                  if int (length queue2) \<ge> paste_threshold
                  then (Event (PasteEvent queue2), ([], p2))
                  else (Keypress (hd queue2), (tl queue2, p2)))))"

text \<open>
  \<^verbatim>\<open>combined_events\<close> creates the generator with the default threshold and runs it to its
  first \<^verbatim>\<open>yield\<close>: the queue is empty and nothing has been fetched.
\<close>

definition default_paste_threshold :: int where
  "default_paste_threshold = 3"

definition combined_events :: "event_provider \<Rightarrow> coalescer" where
  "combined_events p = ([], p)"

text \<open>The caller sends one timeout after the other; each send gives one yielded value.\<close>

fun sends :: "int \<Rightarrow> timeout list \<Rightarrow> coalescer \<Rightarrow> input list \<times> coalescer" where
  "sends paste_threshold [] g = ([], g)"
| "sends paste_threshold (t # ts) g =
     (case resume paste_threshold t g of (y, g1) \<Rightarrow>
        (case sends paste_threshold ts g1 of (ys, g2) \<Rightarrow> (y # ys, g2)))"

text \<open>A unit that ends a run of keypresses: anything but a keypress.\<close>

fun is_keypress :: "input \<Rightarrow> bool" where
  "is_keypress (Keypress k) = True"
| "is_keypress u = False"

definition run_ended :: "event_provider \<Rightarrow> bool" where
  "run_ended rest = (case rest of [] \<Rightarrow> True | u # us \<Rightarrow> \<not> is_keypress u)"

section \<open>The session driver: \<^verbatim>\<open>FullCurtsiesRepl\<close>\<close>

text \<open>
  The exceptions of the model. \<^verbatim>\<open>SystemExitFromCodeGreenlet\<close> and \<^verbatim>\<open>SystemExit\<close>
  carry their \<^verbatim>\<open>args\<close>; they are the two classes named by the \<^verbatim>\<open>except\<close> clause of
  \<^verbatim>\<open>process_event\<close>. \<^verbatim>\<open>DesugaringException\<close> is the class of \<^verbatim>\<open>preprocess.py\<close>, with its
  message; \<^verbatim>\<open>SyntaxError\<close> stands for the class and its subclasses.
\<close>

datatype exn =
    SystemExitFromCodeGreenlet "string list"
  | SystemExit "string list"
  | KeyError string
  | ValueError string
  | SyntaxError string
  | RecursionError
  | DesugaringException string
  | OtherException string

fun caught_by_process_event :: "exn \<Rightarrow> bool" where
  "caught_by_process_event (SystemExitFromCodeGreenlet a) = True"
| "caught_by_process_event (SystemExit a) = True"
| "caught_by_process_event err = False"

text \<open>\<^verbatim>\<open>isinstance(err, SystemExitFromCodeGreenlet)\<close>\<close>

fun isinstance_SystemExitFromCodeGreenlet :: "exn \<Rightarrow> bool" where
  "isinstance_SystemExitFromCodeGreenlet (SystemExitFromCodeGreenlet a) = True"
| "isinstance_SystemExitFromCodeGreenlet err = False"

text \<open>The values bound in the interpreter's namespace: the REPL object itself, or any other.\<close>

datatype py_value = Repl_self | Py_object string

type_synonym namespace = "string \<rightharpoonup> py_value"

text \<open>
  The arguments of a call of \<^verbatim>\<open>paint\<close>: none (\<^verbatim>\<open>self.paint()\<close>), or the two keyword
  arguments of the call in the \<^verbatim>\<open>except\<close> branch.
\<close>

datatype paint_args = No_args | Kwargs (about_to_exit: bool) (user_quit: bool)

text \<open>
  Modelled from the spec: \<^verbatim>\<open>BaseRepl\<close>, \<^verbatim>\<open>curtsies.window.CursorAwareWindow\<close> and
  \<^verbatim>\<open>code.InteractiveInterpreter\<close> are not among the sources. They are parameters of the
  driver, with the interfaces the spec gives: the interpreter's \<^verbatim>\<open>dispatch(event)\<close>
  returns normally or raises, and may bind and unbind names of the namespace;
  \<^verbatim>\<open>paint\<close> gives the frame (array and cursor position); the renderer's
  \<^verbatim>\<open>render(frame, cursor_position)\<close> reports the lines it scrolled; \<^verbatim>\<open>runsource\<close> runs a
  source text in the namespace and shows, rather than raises, what the text raises. The
  session state \<^verbatim>\<open>scroll_offset\<close> is "owned exclusively by SessionDriver": the
  collaborators work on the state \<^typ>\<open>'r\<close> of the REPL, the state \<^typ>\<open>'w\<close> of the window and
  the namespace.
\<close>

record ('r, 'w, 'f) env =
  BaseRepl_process_event :: "input \<Rightarrow> namespace \<Rightarrow> 'r \<Rightarrow> exn option \<times> namespace \<times> 'r"
  paint :: "paint_args \<Rightarrow> 'r \<Rightarrow> 'f \<times> 'r"
  render_to_terminal :: "'f \<Rightarrow> 'w \<Rightarrow> int \<times> 'w"
  runsource :: "string \<Rightarrow> namespace \<Rightarrow> namespace"

text \<open>
  The terminal resources held by the driver: the window (\<^verbatim>\<open>self.window\<close>, exclusive window
  access) and the input generator (\<^verbatim>\<open>self.input_generator\<close>, raw-mode input capture), each
  a context manager, and the events queued by the threadsafe triggers of the input
  generator. \<^verbatim>\<open>calls\<close> records the calls made on them, in order.
\<close>

datatype resource = Window | Input_generator

datatype call = Exit resource | Enter resource | Trigger

record terminal =
  window_entered :: bool
  input_entered :: bool
  queued_interrupting_events :: "event option list"
  calls :: "call list"







text \<open>
  The state of a \<^verbatim>\<open>FullCurtsiesRepl\<close>: \<^verbatim>\<open>self.coderunner.interp.locals\<close>, the rest of the
  \<^verbatim>\<open>BaseRepl\<close>, \<^verbatim>\<open>self.window\<close>, \<^verbatim>\<open>self.scroll_offset\<close>, the terminal resources and the
  raw units \<^verbatim>\<open>self.input_generator\<close> will deliver. Two fields record what was done:
  \<^verbatim>\<open>painted\<close> has, for each call of \<^verbatim>\<open>render_to_terminal\<close>, the arguments of the
  \<^verbatim>\<open>paint\<close> before it and the amount the renderer returned; \<^verbatim>\<open>dispatched\<close> has, for each
  call of \<^verbatim>\<open>BaseRepl.process_event\<close>, the event, the namespace it was called in and the
  namespace it left.
\<close>

record ('r, 'w) session =
  locals :: namespace
  repl :: 'r
  window :: 'w
  scroll_offset :: int
  terminal :: terminal
  input_generator :: event_provider
  painted :: "(paint_args \<times> int) list"
  dispatched :: "(input \<times> namespace \<times> namespace) list"





text \<open>
  \<^verbatim>\<open>BaseRepl.process_event(self, e)\<close>: the collaborator runs in the namespace and the REPL
  state of the session; the call is recorded.
\<close>

definition dispatch :: "('r, 'w, 'f) env \<Rightarrow> input \<Rightarrow> ('r, 'w) session \<Rightarrow> exn option \<times> ('r, 'w) session" where
  "dispatch env e s =
     (case BaseRepl_process_event env e (locals s) (repl s) of (raised, ns, r) \<Rightarrow>
        (raised, s\<lparr>locals := ns, repl := r, dispatched := dispatched s @ [(e, locals s, ns)]\<rparr>))"

text \<open>
  The three lines both branches of \<^verbatim>\<open>process_event\<close> end with:
  \<^verbatim>\<open>
      array, cursor_pos = self.paint(...)
      scrolled = self.window.render_to_terminal(array, cursor_pos)
      self.scroll_offset += scrolled
  \<close>
\<close>

definition paint_and_render :: "('r, 'w, 'f) env \<Rightarrow> paint_args \<Rightarrow> ('r, 'w) session \<Rightarrow> ('r, 'w) session" where
  "paint_and_render env args s =
     (case paint env args (repl s) of (frame, r) \<Rightarrow>
        (case render_to_terminal env frame (window s) of (scrolled, w) \<Rightarrow>
           s\<lparr>repl := r, window := w, scroll_offset := scroll_offset s + scrolled,
             painted := painted s @ [(args, scrolled)]\<rparr>))"

text \<open>
  \<^verbatim>\<open>process_event\<close>. The result is the exception that leaves the method, if any, and the
  session. An exception of another class than the two of the \<^verbatim>\<open>except\<close> clause leaves the
  method from the \<^verbatim>\<open>try\<close> body: neither the handler nor the \<^verbatim>\<open>else\<close> branch runs.
\<close>

definition process_event :: "('r, 'w, 'f) env \<Rightarrow> input \<Rightarrow> ('r, 'w) session \<Rightarrow> exn option \<times> ('r, 'w) session" where
  "process_event env e s =
     (case (if e \<noteq> NoInput then dispatch env e s else (None, s)) of
        (Some err, s1) \<Rightarrow>
          if caught_by_process_event err
          then (Some err,
                paint_and_render env (Kwargs True (isinstance_SystemExitFromCodeGreenlet err)) s1)
          else (Some err, s1)
      | (None, s1) \<Rightarrow> (None, paint_and_render env No_args s1))"

text \<open>A sequence of calls of \<^verbatim>\<open>process_event\<close>, ended by the first exception.\<close>

fun process_events :: "('r, 'w, 'f) env \<Rightarrow> input list \<Rightarrow> ('r, 'w) session \<Rightarrow> exn option \<times> ('r, 'w) session" where
  "process_events env [] s = (None, s)"
| "process_events env (e # es) s =
     (case process_event env e s of
        (Some err, s1) \<Rightarrow> (Some err, s1)
      | (None, s1) \<Rightarrow> process_events env es s1)"

subsection \<open>\<^verbatim>\<open>mainloop\<close>\<close>


definition import_Helper_source :: string where
  "import_Helper_source = ''from bpython.curtsiesfrontend._internal import _Helper''"

definition help_source :: string where
  "help_source = ''help = _Helper(_repl)'' @ [CHR 0x0A]"











text \<open>
  A session as \<^verbatim>\<open>main\<close> hands it to \<^verbatim>\<open>mainloop\<close>: inside
  \<^verbatim>\<open>with repl.input_generator:\<close> and \<^verbatim>\<open>with repl.window as win:\<close>, so both resources are
  held; nothing painted, nothing dispatched, no call recorded yet. Two sets of
  collaborators to run it with. In the first, the key \<^verbatim>\<open><Ctrl-d>\<close> raises
  \<^verbatim>\<open>SystemExit\<close>, the key \<^verbatim>\<open><F10>\<close> raises \<^verbatim>\<open>SystemExitFromCodeGreenlet\<close>, no event
  changes the namespace, a paint without arguments scrolls one line and the last paint
  two. Its \<^verbatim>\<open>runsource\<close> does what \<^verbatim>\<open>exec\<close> does: every run adds \<^verbatim>\<open>__builtins__\<close> to the
  namespace, the import binds \<^verbatim>\<open>_Helper\<close>, and the assignment binds \<^verbatim>\<open>help\<close> where
  \<^verbatim>\<open>_Helper\<close> and \<^verbatim>\<open>_repl\<close> are bound and nothing where one of them is not. In the second
  set, the startup file binds the name \<^verbatim>\<open>_repl\<close>.
\<close>

definition fresh_session :: "event_provider \<Rightarrow> (unit, unit) session" where
  "fresh_session p =
     \<lparr>locals = Map.empty, repl = (), window = (), scroll_offset = 0,
      terminal = \<lparr>window_entered = True, input_entered = True,
                  queued_interrupting_events = [], calls = []\<rparr>,
      input_generator = p, painted = [], dispatched = []\<rparr>"

definition example_runsource :: "string \<Rightarrow> namespace \<Rightarrow> namespace" where
  "example_runsource source ns =
     (let ns1 = ns(''__builtins__'' \<mapsto> Py_object ''builtins'')
      in if source = import_Helper_source then ns1(''_Helper'' \<mapsto> Py_object ''_Helper'')
         else if source = help_source
         then (if ns ''_Helper'' \<noteq> None \<and> ns ''_repl'' \<noteq> None
               then ns1(''help'' \<mapsto> Py_object ''help'') else ns1)
         else ns1)"

definition example_env :: "(unit, unit, paint_args) env" where
  "example_env =
     \<lparr>BaseRepl_process_event = (\<lambda>e ns r.
        (if e = Keypress ''<Ctrl-d>'' then Some (SystemExit [])
         else if e = Keypress ''<F10>'' then Some (SystemExitFromCodeGreenlet [''1''])
         else None, ns, r)),
      paint = (\<lambda>args r. (args, r)),
      render_to_terminal = (\<lambda>frame w. (case frame of No_args \<Rightarrow> 1 | Kwargs a u \<Rightarrow> 2, w)),
      runsource = example_runsource\<rparr>"


section \<open>Source preprocessing: \<^verbatim>\<open>preprocess.py\<close>\<close>

text \<open>
  A Python \<^verbatim>\<open>str\<close> is a list of characters; the characters of the model are the code
  points below 256. \<^verbatim>\<open>isspace\<close> is the whitespace of \<^verbatim>\<open>str.strip()\<close> and of the regular
  expression \<^verbatim>\<open>\s\<close> among them: tab, line feed, vertical tab, form feed, carriage return,
  the four separators 28 to 31, space, next line (133) and no-break space (160).
\<close>

definition isspace :: "char \<Rightarrow> bool" where
  "isspace c = (of_char c \<in> set [9, 10, 11, 12, 13, 28, 29, 30, 31, 32, 133, 160 :: nat])"


text \<open>\<^verbatim>\<open>s.split("\n")\<close> and \<^verbatim>\<open>"\n".join(lines)\<close>\<close>

fun str_split :: "string \<Rightarrow> string list" where
  "str_split [] = [[]]"
| "str_split (c # cs) =
     (if c = CHR 0x0A then [] # str_split cs
      else (c # hd (str_split cs)) # tl (str_split cs))"

fun str_join :: "string list \<Rightarrow> string" where
  "str_join [] = []"
| "str_join [l] = l"
| "str_join (l # ls) = l @ CHR 0x0A # str_join ls"

text \<open>\<^verbatim>\<open>indent_empty_lines_re.match(line).group()\<close> with the pattern \<^verbatim>\<open>\s*\<close>\<close>

definition indent_empty_lines_re_match :: "string \<Rightarrow> string" where
  "indent_empty_lines_re_match line = takeWhile isspace line"

text \<open>\<^verbatim>\<open>min([p_indent, n_indent], key=len)\<close>: the first of the two unless the second is shorter.\<close>

definition min_key_len :: "string \<Rightarrow> string \<Rightarrow> string" where
  "min_key_len p_indent n_indent = (if length n_indent < length p_indent then n_indent else p_indent)"

text \<open>
  The loop of \<^verbatim>\<open>indent_empty_lines\<close> over \<^verbatim>\<open>zip(prevs, lines, nexts)\<close>, where \<^verbatim>\<open>prevs\<close> is
  the lines behind one empty string and \<^verbatim>\<open>nexts\<close> the lines from the second on and one
  empty string.
\<close>

definition result_lines :: "string list \<Rightarrow> string list" where
  "result_lines initial_lines =
     map (\<lambda>(p_line, line, n_line).
            if length line = 0
            then min_key_len (indent_empty_lines_re_match p_line)
                   (indent_empty_lines_re_match n_line) @ line
            else line)
       (zip ([] # initial_lines) (zip initial_lines (drop 1 initial_lines @ [[]])))"

definition indent_empty_lines :: "string \<Rightarrow> 'c \<Rightarrow> string" where
  "indent_empty_lines s compiler =
     (let initial_lines = str_split s;
          ends_with_newline = (initial_lines \<noteq> [] \<and> last initial_lines = []);
          initial_lines = (if ends_with_newline then butlast initial_lines else initial_lines)
      in str_join (result_lines initial_lines) @ (if ends_with_newline then [CHR 0x0A] else []))"

text \<open>\<^verbatim>\<open>tab_to_space\<close> and \<^verbatim>\<open>tabs_to_spaces_re.sub(tab_to_space, line)\<close> with the pattern \<^verbatim>\<open>^\t+\<close>\<close>

definition tab_to_space :: "string \<Rightarrow> string" where
  "tab_to_space m = replicate (length m * 4) CHR '' ''"

definition tabs_to_spaces_re_sub :: "string \<Rightarrow> string" where
  "tabs_to_spaces_re_sub line =
     (let m = takeWhile (\<lambda>c. c = CHR 0x09) line
      in if m = [] then line else tab_to_space m @ drop (length m) line)"

definition leading_tabs_to_spaces :: "string \<Rightarrow> string" where
  "leading_tabs_to_spaces s = str_join (map tabs_to_spaces_re_sub (str_split s))"

definition preprocess :: "string \<Rightarrow> 'c \<Rightarrow> string" where
  "preprocess s compiler = indent_empty_lines (leading_tabs_to_spaces s) compiler"

text \<open>
  The line before and the line after line \<^verbatim>\<open>i\<close> of a text, the empty string where there is
  none.
\<close>

definition line_before :: "string list \<Rightarrow> nat \<Rightarrow> string" where
  "line_before ls i = (if i = 0 then [] else ls ! (i - 1))"

definition line_after :: "string list \<Rightarrow> nat \<Rightarrow> string" where
  "line_after ls i = (if Suc i < length ls then ls ! Suc i else [])"

subsection \<open>Desugaring\<close>

text \<open>
  The syntax trees of \<^verbatim>\<open>ast\<close>, as far as \<^verbatim>\<open>NodeVisitor\<close> tells them apart: a \<^verbatim>\<open>Name\<close>, an
  \<^verbatim>\<open>Attribute\<close> of a value, and any other node with its child nodes in the order of its
  fields.
\<close>

datatype ast = Name string | Attribute ast string | Node "ast list"





text \<open>The string methods \<^verbatim>\<open>endswith\<close>, \<^verbatim>\<open>strip\<close>, \<^verbatim>\<open>removesuffix\<close> and \<^verbatim>\<open>rpartition\<close>.\<close>

definition endswith :: "string \<Rightarrow> string \<Rightarrow> bool" where
  "endswith s suffix = (length suffix \<le> length s \<and> drop (length s - length suffix) s = suffix)"










fun unparse_each :: "(ast \<Rightarrow> exn + string) \<Rightarrow> ast list \<Rightarrow> exn + string list" where
  "unparse_each unparse [] = Inr []"
| "unparse_each unparse (r # rs) =
     (case unparse r of
        Inl err \<Rightarrow> Inl err
      | Inr text \<Rightarrow>
          (case unparse_each unparse rs of
             Inl err \<Rightarrow> Inl err
           | Inr texts \<Rightarrow> Inr (text # texts)))"





section \<open>File watching: \<^verbatim>\<open>filewatch.py\<close>\<close>

text \<open>
  The functions of \<^verbatim>\<open>os.path\<close> and the list \<^verbatim>\<open>importcompletion.SUFFIXES\<close> are parameters.
\<close>

record os_path =
  abspath :: "string \<Rightarrow> string"
  dirname :: "string \<Rightarrow> string"
  SUFFIXES :: "string list"

text \<open>
  The watchdog observer: the directories scheduled for watching, in the order of the calls
  of \<^verbatim>\<open>schedule\<close>, and whether \<^verbatim>\<open>start\<close> has been called.
\<close>

record observer =
  watches :: "string list"
  running :: bool

text \<open>
  The fields of the class \<^verbatim>\<open>ModuleChangedEventHandler\<close>. The dictionaries of sets are
  association lists in insertion order.
\<close>

record 'c handler =
  dirs :: "(string \<times> string set) list"
  on_change :: 'c
  modules_to_add_later :: "string list"
  observer :: observer
  old_dirs :: "(string \<times> string set) list"
  started :: bool
  activated :: bool

text \<open>\<^verbatim>\<open>self.dirs[dirname].add(path)\<close> on a \<^verbatim>\<open>defaultdict(set)\<close>\<close>

fun dirs_add :: "string \<Rightarrow> string \<Rightarrow> (string \<times> string set) list \<Rightarrow> (string \<times> string set) list" where
  "dirs_add d path [] = [(d, {path})]"
| "dirs_add d path ((d1, paths) # ds) =
     (if d1 = d then (d1, insert path paths) # ds else (d1, paths) # dirs_add d path ds)"

text \<open>
  The loop over the suffixes: the first suffix the path ends with is cut off. (The slice
  \<^verbatim>\<open>path[: -len(suff)]\<close> with an empty suffix is the empty string.)
\<close>

fun cut_suffix :: "string list \<Rightarrow> string \<Rightarrow> string" where
  "cut_suffix [] path = path"
| "cut_suffix (suff # suffs) path =
     (if endswith path suff
      then (if suff = [] then [] else take (length path - length suff) path)
      else cut_suffix suffs path)"

definition add_module :: "os_path \<Rightarrow> string \<Rightarrow> 'c handler \<Rightarrow> 'c handler" where
  "add_module os path h =
     (let path = cut_suffix (SUFFIXES os) (abspath os path);
          d = dirname os path;
          obs = (if map_of (dirs h) d = None
                 then (observer h)\<lparr>watches := watches (observer h) @ [d]\<rparr>
                 else observer h)
      in h\<lparr>observer := obs, dirs := dirs_add d path (dirs h)\<rparr>)"

definition add_module_later :: "string \<Rightarrow> 'c handler \<Rightarrow> 'c handler" where
  "add_module_later path h = h\<lparr>modules_to_add_later := modules_to_add_later h @ [path]\<rparr>"

definition track_module :: "os_path \<Rightarrow> string \<Rightarrow> 'c handler \<Rightarrow> 'c handler" where
  "track_module os path h =
     (if activated h then add_module os path h else add_module_later path h)"

definition activate :: "os_path \<Rightarrow> 'c handler \<Rightarrow> exn + 'c handler" where
  "activate os h =
     (if activated h then Inl (ValueError ''is already activated.'')
      else
        (let h1 = (if \<not> started h
                   then h\<lparr>started := True, observer := (observer h)\<lparr>running := True\<rparr>\<rparr>
                   else h);
             h2 = h1\<lparr>observer := (observer h1)\<lparr>watches := watches (observer h1) @ map fst (dirs h1)\<rparr>\<rparr>;
             h3 = fold (add_module os) (modules_to_add_later h2) h2
         in Inr (h3\<lparr>modules_to_add_later := [], activated := True\<rparr>)))"

definition deactivate :: "'c handler \<Rightarrow> exn + 'c handler" where
  "deactivate h =
     (if \<not> activated h then Inl (ValueError ''is not activated.'')
      else Inr (h\<lparr>observer := (observer h)\<lparr>watches := []\<rparr>, activated := False\<rparr>))"

text \<open>
  The name \<^verbatim>\<open>ModuleChangedEventHandler\<close> of the module. When the import of watchdog
  raises \<^verbatim>\<open>ImportError\<close> it is the function \<^verbatim>\<open>def ModuleChangedEventHandler(*args): return None\<close>;
  otherwise it is the class, whose \<^verbatim>\<open>__init__\<close> adds the given paths.
\<close>

definition ModuleChangedEventHandler :: "bool \<Rightarrow> os_path \<Rightarrow> string list \<Rightarrow> 'c \<Rightarrow> 'c handler option" where
  "ModuleChangedEventHandler watchdog_installed os paths cb =
     (if \<not> watchdog_installed then None
      else Some (fold (add_module os) paths
             \<lparr>dirs = [], on_change = cb, modules_to_add_later = [],
              observer = \<lparr>watches = [], running = False\<rparr>,
              old_dirs = [], started = False, activated = False\<rparr>))"

text \<open>
  Modelled from the spec: the code that holds the watcher and calls it
  (\<^verbatim>\<open>bpython/curtsiesfrontend/repl.py\<close>) is not among the sources. The spec gives the calls
  of the file-watch collaborator: with the notification service absent "tracking/activation
  calls become no-ops; no error". A request reaches the handler when there is one and does
  nothing when there is none.
\<close>

datatype request = Track_module string | Activate | Deactivate

definition serve :: "os_path \<Rightarrow> request \<Rightarrow> 'c handler option \<Rightarrow> exn + 'c handler option" where
  "serve os req watcher =
     (case watcher of
        None \<Rightarrow> Inr None
      | Some h \<Rightarrow>
          (case req of
             Track_module path \<Rightarrow> Inr (Some (track_module os path h))
           | Activate \<Rightarrow> map_sum id Some (activate os h)
           | Deactivate \<Rightarrow> map_sum id Some (deactivate h)))"

fun serve_all :: "os_path \<Rightarrow> request list \<Rightarrow> 'c handler option \<Rightarrow> exn + 'c handler option" where
  "serve_all os [] watcher = Inr watcher"
| "serve_all os (req # reqs) watcher =
     (case serve os req watcher of
        Inl err \<Rightarrow> Inl err
      | Inr watcher1 \<Rightarrow> serve_all os reqs watcher1)"

section \<open>Properties\<close>

subsection \<open>Properties of the coalescer\<close>

text \<open>The probing loop, one round at a time, in terms of \<^verbatim>\<open>send(0)\<close>.\<close>

lemma probe_send:
  "probe queue p =
     (case send (Some 0) p of
        (Keypress k, p1) \<Rightarrow> probe (queue @ [k]) p1
      | (e, p1) \<Rightarrow> (queue, e, p1))"
proof (cases p)
  case Nil
  then show ?thesis by (simp add: send_def)
next
  case (Cons u us)
  then show ?thesis by (cases u) (simp_all add: send_def)
qed

lemma probe_run:
  "run_ended rest \<Longrightarrow>
   probe queue (map Keypress ks @ rest) =
     (queue @ ks, (case rest of [] \<Rightarrow> NoInput | u # us \<Rightarrow> u), tl rest)"
proof (induction ks arbitrary: queue)
  case Nil
  then show ?case
    by (cases rest; cases "hd rest") (auto simp: run_ended_def)
next
  case (Cons k ks)
  then show ?case by simp
qed

lemma drain_queue:
  "length ts = length queue \<Longrightarrow>
   sends thr ts (queue, p) = (map Keypress queue, ([], p))"
proof (induction queue arbitrary: ts)
  case Nil
  then show ?case by simp
next
  case (Cons k queue)
  then obtain t ts' where ts: "ts = t # ts'" and len: "length ts' = length queue"
    by (cases ts) auto
  show ?case
    using Cons.IH [OF len] by (simp add: ts resume_def)
qed

lemma resume_run:
  assumes "ks \<noteq> []" and "run_ended rest"
  shows "resume thr t ([], map Keypress ks @ rest) =
           (if int (length ks) \<ge> thr then (Event (PasteEvent ks), ([], tl rest))
            else (Keypress (hd ks), (tl ks, tl rest)))"
proof -
  obtain k ks' where ks: "ks = k # ks'"
    using assms(1) by (cases ks) auto
  have "probe [k] (map Keypress ks' @ rest) =
          (k # ks', (case rest of [] \<Rightarrow> NoInput | u # us \<Rightarrow> u), tl rest)"
    using probe_run [OF assms(2), of "[k]" ks'] by simp
  then show ?thesis
    by (simp add: resume_def send_def ks)
qed

lemma short_run:
  assumes "ks \<noteq> []" and "run_ended rest" and "int (length ks) < thr"
    and "length ts = length ks"
  shows "sends thr ts ([], map Keypress ks @ rest) = (map Keypress ks, ([], tl rest))"
proof -
  obtain k ks' where ks: "ks = k # ks'"
    using assms(1) by (cases ks) auto
  obtain t ts' where ts: "ts = t # ts'" and len: "length ts' = length ks'"
    using assms(4) ks by (cases ts) auto
  have step: "resume thr t ([], map Keypress ks @ rest) = (Keypress k, (ks', tl rest))"
    using resume_run [OF assms(1,2), of thr t] assms(3) by (simp add: ks)
  show ?thesis
    using step drain_queue [OF len, of thr "tl rest"] by (simp add: ts ks)
qed

lemma long_run:
  assumes "ks \<noteq> []" and "run_ended rest" and "thr \<le> int (length ks)"
  shows "sends thr [t] ([], map Keypress ks @ rest) = ([Event (PasteEvent ks)], ([], tl rest))"
  using resume_run [OF assms(1,2), of thr t] assms(3) by simp

text \<open>
  A run of keypresses ended by an event: after the queued keypresses have been emitted
  the generator has an empty queue and reads the provider behind the event, so the event
  itself is never yielded.
\<close>

lemma event_after_run_is_dropped:
  assumes "ks \<noteq> []"
    and "length ts = (if int (length ks) < thr then length ks else 1)"
  shows "sends thr ts ([], map Keypress ks @ Event e # rest) =
           ((if int (length ks) < thr then map Keypress ks else [Event (PasteEvent ks)]),
            ([], rest))"
proof (cases "int (length ks) < thr")
  case True
  then show ?thesis
    using short_run [OF assms(1), of "Event e # rest" thr ts] assms(2)
    by (simp add: run_ended_def)
next
  case False
  then obtain t where "ts = [t]"
    using assms(2) by (cases ts) auto
  then show ?thesis
    using long_run [OF assms(1), of "Event e # rest" thr t] False
    by (simp add: run_ended_def)
qed

text \<open>
  C1. A structured event that arrives while the coalescer probes for further keypresses
  ends the accumulation and is not part of the paste, but the code does not emit it on the
  following cycle: the unit that ended the probing loop is discarded. With the provider
  delivering the keypress \<^verbatim>\<open>a\<close>, a reload event and then a timeout, three polls yield the
  keypress, \<^verbatim>\<open>None\<close> and \<^verbatim>\<open>None\<close>, nothing is left in the queue or in the provider, and the
  reload event is not among the yielded values.
\<close>

theorem C1_event_ending_probe_is_lost:
  "sends default_paste_threshold [Some 0, Some 0, Some 0]
     (combined_events [Keypress ''a'', Event ReloadEvent, NoInput]) =
       ([Keypress ''a'', NoInput, NoInput], ([], []))
   \<and> Event ReloadEvent \<notin> set (fst (sends default_paste_threshold [Some 0, Some 0, Some 0]
       (combined_events [Keypress ''a'', Event ReloadEvent, NoInput])))"
  by (simp add: default_paste_threshold_def combined_events_def resume_def send_def)

text \<open>
  C2. A maximal run of keypresses (the coalescer is at a fetch with an empty queue, the run
  is followed by an event, a timeout, or nothing more): a run shorter than the threshold is
  yielded keypress by keypress in the original order, one for each timeout the caller
  sends; a run of at least the threshold is yielded as one paste event holding all of it in
  the original order. Either way the queue is empty afterwards. Three keypresses and a
  timeout, with threshold 3, yield the paste of the three and then \<^verbatim>\<open>None\<close>; this
  \<^verbatim>\<open>None\<close> is the answer to the fetch of the second poll, from a provider that has nothing
  more or that times out once more (the timeout that ended the probing is consumed by
  then).
\<close>

theorem C2_runs_of_keypresses:
  "(ks \<noteq> [] \<and> run_ended rest \<and> int (length ks) < thr \<and> length ts = length ks \<longrightarrow>
      fst (sends thr ts ([], map Keypress ks @ rest)) = map Keypress ks
      \<and> fst (snd (sends thr ts ([], map Keypress ks @ rest))) = [])
   \<and> (ks \<noteq> [] \<and> run_ended rest \<and> thr \<le> int (length ks) \<longrightarrow>
      fst (sends thr [t] ([], map Keypress ks @ rest)) = [Event (PasteEvent ks)]
      \<and> fst (snd (sends thr [t] ([], map Keypress ks @ rest))) = [])
   \<and> fst (sends 3 [t1, t2]
        (combined_events [Keypress a, Keypress b, Keypress c, NoInput])) =
       [Event (PasteEvent [a, b, c]), NoInput]
   \<and> fst (sends 3 [t1, t2]
        (combined_events ([Keypress a, Keypress b, Keypress c, NoInput] @ NoInput # later))) =
       [Event (PasteEvent [a, b, c]), NoInput]"
proof (intro conjI impI)
  assume h: "ks \<noteq> [] \<and> run_ended rest \<and> int (length ks) < thr \<and> length ts = length ks"
  then have "sends thr ts ([], map Keypress ks @ rest) = (map Keypress ks, ([], tl rest))"
    using short_run [of ks rest thr ts] by blast
  then show "fst (sends thr ts ([], map Keypress ks @ rest)) = map Keypress ks"
    and "fst (snd (sends thr ts ([], map Keypress ks @ rest))) = []"
    by simp_all
next
  assume h: "ks \<noteq> [] \<and> run_ended rest \<and> thr \<le> int (length ks)"
  then have "sends thr [t] ([], map Keypress ks @ rest) = ([Event (PasteEvent ks)], ([], tl rest))"
    using long_run [of ks rest thr t] by blast
  then show "fst (sends thr [t] ([], map Keypress ks @ rest)) = [Event (PasteEvent ks)]"
    and "fst (snd (sends thr [t] ([], map Keypress ks @ rest))) = []"
    by simp_all
next
  show "fst (sends 3 [t1, t2]
        (combined_events [Keypress a, Keypress b, Keypress c, NoInput])) =
       [Event (PasteEvent [a, b, c]), NoInput]"
    by (simp add: combined_events_def resume_def send_def)
next
  show "fst (sends 3 [t1, t2]
        (combined_events ([Keypress a, Keypress b, Keypress c, NoInput] @ NoInput # later))) =
       [Event (PasteEvent [a, b, c]), NoInput]"
    by (simp add: combined_events_def resume_def send_def)
qed

theorem C2_runs_of_keypresses_witness:
  "fst (sends 3 [None, None] ([], map Keypress [''x'', ''y''] @ [Event UndoEvent])) =
     [Keypress ''x'', Keypress ''y'']
   \<and> fst (sends 3 [None] ([], map Keypress [''p'', ''q'', ''r'', ''s''] @ [NoInput])) =
     [Event (PasteEvent [''p'', ''q'', ''r'', ''s''])]"
proof -
  have short: "[''x'', ''y''] \<noteq> [] \<and> run_ended [Event UndoEvent]
      \<and> int (length [''x'', ''y'']) < 3 \<and> length [None :: timeout, None] = length [''x'', ''y'']"
    by (simp add: run_ended_def)
  have long: "[''p'', ''q'', ''r'', ''s''] \<noteq> [] \<and> run_ended [NoInput]
      \<and> (3::int) \<le> int (length [''p'', ''q'', ''r'', ''s''])"
    by (simp add: run_ended_def)
  have a: "fst (sends 3 [None, None] ([], map Keypress [''x'', ''y''] @ [Event UndoEvent])) =
     map Keypress [''x'', ''y'']"
    by (rule C2_runs_of_keypresses [where ks = "[''x'', ''y'']" and rest = "[Event UndoEvent]"
          and thr = 3 and ts = "[None, None]",
          THEN conjunct1, THEN mp, OF short, THEN conjunct1])
  have b: "fst (sends 3 [None] ([], map Keypress [''p'', ''q'', ''r'', ''s''] @ [NoInput])) =
     [Event (PasteEvent [''p'', ''q'', ''r'', ''s''])]"
    by (rule C2_runs_of_keypresses [where ks = "[''p'', ''q'', ''r'', ''s'']" and rest = "[NoInput]"
          and thr = 3 and t = None,
          THEN conjunct2, THEN conjunct1, THEN mp, OF long, THEN conjunct1])
  from a b show ?thesis by simp
qed

subsection \<open>Properties of the session driver\<close>








lemma example_scroll:
  "scroll_offset (snd (process_events example_env
         [Keypress ''a'', NoInput, Keypress ''<Ctrl-d>'', Keypress ''b''] (fresh_session []))) = 4"
  by (simp add: example_env_def fresh_session_def process_event_def dispatch_def paint_and_render_def)























subsection \<open>Properties of the preprocessing\<close>

lemma str_split_not_empty: "str_split s \<noteq> []"
  by (induction s) auto

lemma str_split_no_newline: "l \<in> set (str_split s) \<Longrightarrow> CHR 0x0A \<notin> set l"
proof (induction s arbitrary: l)
  case Nil
  then show ?case by simp
next
  case (Cons c cs)
  show ?case
  proof (cases "c = CHR 0x0A")
    case True
    then show ?thesis using Cons by auto
  next
    case False
    obtain x xs where x: "str_split cs = x # xs"
      using str_split_not_empty [of cs] by (cases "str_split cs") auto
    then show ?thesis using Cons False by auto
  qed
qed

lemma str_join_Cons: "ls \<noteq> [] \<Longrightarrow> str_join (l # ls) = l @ CHR 0x0A # str_join ls"
  by (cases ls) auto

lemma str_join_str_split: "str_join (str_split s) = s"
proof (induction s)
  case Nil
  show ?case by simp
next
  case (Cons c cs)
  obtain x xs where x: "str_split cs = x # xs"
    using str_split_not_empty [of cs] by (cases "str_split cs") auto
  show ?case
  proof (cases "c = CHR 0x0A")
    case True
    then show ?thesis using Cons by (simp add: str_join_Cons str_split_not_empty)
  next
    case False
    then show ?thesis using Cons x by (cases xs) auto
  qed
qed

lemma str_split_append_newline:
  "str_split (a @ CHR 0x0A # b) = str_split a @ str_split b"
proof (induction a)
  case Nil
  show ?case by simp
next
  case (Cons c a)
  obtain x xs where x: "str_split a = x # xs"
    using str_split_not_empty [of a] by (cases "str_split a") auto
  show ?case using Cons x by simp
qed

lemma str_split_line: "CHR 0x0A \<notin> set l \<Longrightarrow> str_split l = [l]"
  by (induction l) auto

lemma str_split_str_join:
  "ls \<noteq> [] \<Longrightarrow> \<forall>l \<in> set ls. CHR 0x0A \<notin> set l \<Longrightarrow> str_split (str_join ls) = ls"
proof (induction ls rule: str_join.induct)
  case 1
  then show ?case by simp
next
  case (2 l)
  then show ?case by (simp add: str_split_line)
next
  case (3 l v va)
  then show ?case by (simp add: str_split_append_newline str_split_line)
qed

lemma str_join_eq_Nil: "str_join ls = [] \<longleftrightarrow> ls = [] \<or> ls = [[]]"
  by (induction ls rule: str_join.induct) auto

lemma length_result_lines: "length (result_lines ls) = length ls"
  by (simp add: result_lines_def)

lemma result_lines_nth:
  assumes "i < length ls"
  shows "result_lines ls ! i =
     (if ls ! i = [] then min_key_len (indent_empty_lines_re_match (line_before ls i))
         (indent_empty_lines_re_match (line_after ls i))
      else ls ! i)"
proof -
  have p: "([] # ls) ! i = line_before ls i"
    by (cases i) (simp_all add: line_before_def)
  have n: "(drop (Suc 0) ls @ [[]]) ! i = line_after ls i"
    using assms by (auto simp: line_after_def nth_append)
  show ?thesis
    using assms by (simp add: result_lines_def p n)
qed

lemma min_key_len_Nil: "min_key_len [] n = []" "min_key_len p [] = []"
  by (simp_all add: min_key_len_def)

lemma match_Nil: "indent_empty_lines_re_match [] = []"
  by (simp add: indent_empty_lines_re_match_def)

lemma indent_kept_after:
  assumes "i < length ls" and "ls ! i = []"
  shows "indent_empty_lines_re_match (line_after (result_lines ls) i) =
         indent_empty_lines_re_match (line_after ls i)"
proof (cases "Suc i < length ls")
  case False
  then show ?thesis by (simp add: line_after_def length_result_lines)
next
  case True
  have "line_before ls (Suc i) = []"
    using assms by (simp add: line_before_def)
  then have "result_lines ls ! Suc i = (if ls ! Suc i = [] then [] else ls ! Suc i)"
    using result_lines_nth [OF True] by (simp add: match_Nil min_key_len_Nil)
  then show ?thesis
    using True by (simp add: line_after_def length_result_lines)
qed

lemma indent_kept_before:
  assumes "i < length ls" and "ls ! i = []"
  shows "indent_empty_lines_re_match (line_before (result_lines ls) i) =
         indent_empty_lines_re_match (line_before ls i)"
proof (cases i)
  case 0
  then show ?thesis by (simp add: line_before_def)
next
  case (Suc j)
  have j: "j < length ls" using assms Suc by simp
  have "line_after ls j = []"
    using assms Suc by (simp add: line_after_def)
  then have "result_lines ls ! j = (if ls ! j = [] then [] else ls ! j)"
    using result_lines_nth [OF j] by (simp add: match_Nil min_key_len_Nil)
  then show ?thesis
    using Suc by (simp add: line_before_def)
qed

lemma result_lines_idem: "result_lines (result_lines ls) = result_lines ls"
proof (rule nth_equalityI)
  show "length (result_lines (result_lines ls)) = length (result_lines ls)"
    by (simp add: length_result_lines)
next
  fix i assume "i < length (result_lines (result_lines ls))"
  then have i: "i < length ls" by (simp add: length_result_lines)
  then have i': "i < length (result_lines ls)" by (simp add: length_result_lines)
  show "result_lines (result_lines ls) ! i = result_lines ls ! i"
  proof (cases "result_lines ls ! i = []")
    case False
    then show ?thesis using result_lines_nth [OF i'] by simp
  next
    case True
    have blank: "ls ! i = []"
      using True result_lines_nth [OF i] by (auto split: if_splits)
    have "result_lines (result_lines ls) ! i =
        min_key_len (indent_empty_lines_re_match (line_before ls i))
          (indent_empty_lines_re_match (line_after ls i))"
      using result_lines_nth [OF i'] True
      by (simp add: indent_kept_before [OF i blank] indent_kept_after [OF i blank])
    also have "\<dots> = result_lines ls ! i"
      using result_lines_nth [OF i] blank by simp
    finally show ?thesis .
  qed
qed

lemma result_lines_no_newline:
  assumes "\<forall>l \<in> set ls. CHR 0x0A \<notin> set l" and "l \<in> set (result_lines ls)"
  shows "CHR 0x0A \<notin> set l"
proof -
  obtain i where i: "i < length ls" and l: "l = result_lines ls ! i"
    using assms(2) by (auto simp: in_set_conv_nth length_result_lines)
  have b: "CHR 0x0A \<notin> set (line_before ls i)"
    using assms(1) i by (cases i) (auto simp: line_before_def)
  have a: "CHR 0x0A \<notin> set (line_after ls i)"
    using assms(1) by (auto simp: line_after_def)
  have bi: "CHR 0x0A \<notin> set (indent_empty_lines_re_match (line_before ls i))"
    using b by (auto simp: indent_empty_lines_re_match_def dest: set_takeWhileD)
  have ai: "CHR 0x0A \<notin> set (indent_empty_lines_re_match (line_after ls i))"
    using a by (auto simp: indent_empty_lines_re_match_def dest: set_takeWhileD)
  have "CHR 0x0A \<notin> set (ls ! i)"
    using assms(1) i by simp
  then show ?thesis
    unfolding l result_lines_nth [OF i] using bi ai by (simp add: min_key_len_def)
qed

lemma last_result_lines:
  assumes "ls \<noteq> []" and "last ls \<noteq> []"
  shows "last (result_lines ls) = last ls"
proof -
  have i: "length ls - 1 < length ls" using assms(1) by simp
  have ne: "result_lines ls \<noteq> []"
    using assms(1) length_result_lines [of ls] by auto
  have "ls ! (length ls - 1) \<noteq> []"
    using assms by (simp add: last_conv_nth)
  then have "result_lines ls ! (length ls - 1) = ls ! (length ls - 1)"
    using result_lines_nth [OF i] by simp
  then show ?thesis
    using assms(1) ne by (simp add: last_conv_nth length_result_lines)
qed

lemma result_lines_snoc_blank: "result_lines (ls @ [[]]) = result_lines ls @ [[]]"
proof (rule nth_equalityI)
  show "length (result_lines (ls @ [[]])) = length (result_lines ls @ [[]])"
    by (simp add: length_result_lines)
next
  fix i assume "i < length (result_lines (ls @ [[]]))"
  then have i: "i < length (ls @ [[]])" by (simp add: length_result_lines)
  show "result_lines (ls @ [[]]) ! i = (result_lines ls @ [[]]) ! i"
  proof (cases "i < length ls")
    case True
    have b: "line_before (ls @ [[]]) i = line_before ls i"
      using True by (cases i) (simp_all add: line_before_def nth_append)
    have a: "line_after (ls @ [[]]) i = line_after ls i"
      using True by (auto simp: line_after_def nth_append)
    show ?thesis
      using True result_lines_nth [OF i] result_lines_nth [OF True]
      by (simp add: nth_append length_result_lines a b)
  next
    case False
    then have e: "i = length ls" using i by simp
    have "line_after (ls @ [[]]) i = []"
      using e by (simp add: line_after_def)
    then show ?thesis
      using result_lines_nth [OF i] e
      by (simp add: nth_append length_result_lines match_Nil min_key_len_Nil)
  qed
qed

lemma result_lines_eq_Nil: "result_lines ls = [] \<longleftrightarrow> ls = []"
  using length_result_lines [of ls] by auto

lemma indent_empty_lines_ends_with_newline:
  assumes "last (str_split s) = []"
  shows "indent_empty_lines s c = str_join (result_lines (butlast (str_split s))) @ [CHR 0x0A]"
  using assms by (simp add: indent_empty_lines_def str_split_not_empty)

lemma indent_empty_lines_no_newline_at_end:
  assumes "last (str_split s) \<noteq> []"
  shows "indent_empty_lines s c = str_join (result_lines (str_split s))"
  using assms by (simp add: indent_empty_lines_def)

lemma str_split_snoc_newline: "str_split (s @ [CHR 0x0A]) = str_split s @ [[]]"
  using str_split_append_newline [of s "[]"] by simp

lemma indent_empty_lines_idem:
  "indent_empty_lines (indent_empty_lines s c) c = indent_empty_lines s c"
proof (cases "last (str_split s) = []")
  case True
  let ?R = "result_lines (butlast (str_split s))"
  have out: "indent_empty_lines s c = str_join ?R @ [CHR 0x0A]"
    by (rule indent_empty_lines_ends_with_newline [OF True])
  have nl: "\<forall>l \<in> set ?R. CHR 0x0A \<notin> set l"
    using result_lines_no_newline [of "butlast (str_split s)"] str_split_no_newline [of _ s]
    by (meson in_set_butlastD)
  show ?thesis
  proof (cases "?R = []")
    case True
    then have "indent_empty_lines s c = [CHR 0x0A]"
      using out by simp
    moreover have "indent_empty_lines [CHR 0x0A] c = [CHR 0x0A]"
      by (simp add: indent_empty_lines_def result_lines_def min_key_len_def
          indent_empty_lines_re_match_def)
    ultimately show ?thesis by simp
  next
    case False
    have sp: "str_split (str_join ?R @ [CHR 0x0A]) = ?R @ [[]]"
      using str_split_str_join [OF False nl] by (simp add: str_split_snoc_newline)
    have "indent_empty_lines (str_join ?R @ [CHR 0x0A]) c =
        str_join (result_lines ?R) @ [CHR 0x0A]"
      using indent_empty_lines_ends_with_newline [of "str_join ?R @ [CHR 0x0A]" c]
      by (simp add: sp)
    then show ?thesis
      by (simp add: out result_lines_idem)
  qed
next
  case False
  let ?R = "result_lines (str_split s)"
  have out: "indent_empty_lines s c = str_join ?R"
    by (rule indent_empty_lines_no_newline_at_end [OF False])
  have nl: "\<forall>l \<in> set ?R. CHR 0x0A \<notin> set l"
    using result_lines_no_newline [of "str_split s"] str_split_no_newline [of _ s] by blast
  have ne: "?R \<noteq> []"
    by (simp add: result_lines_eq_Nil str_split_not_empty)
  have sp: "str_split (str_join ?R) = ?R"
    by (rule str_split_str_join [OF ne nl])
  have "last ?R \<noteq> []"
    using last_result_lines [OF str_split_not_empty False] False by simp
  then have "indent_empty_lines (str_join ?R) c = str_join (result_lines ?R)"
    using indent_empty_lines_no_newline_at_end [of "str_join ?R" c] by (simp add: sp)
  then show ?thesis
    by (simp add: out result_lines_idem)
qed

lemma indent_example:
  "indent_empty_lines (''  a'' @ [CHR 0x0A, CHR 0x0A] @ ''    b'' @ [CHR 0x0A]) () =
     ''  a'' @ [CHR 0x0A] @ ''  '' @ [CHR 0x0A] @ ''    b'' @ [CHR 0x0A]"
  by (simp add: indent_empty_lines_def result_lines_def min_key_len_def
      indent_empty_lines_re_match_def isspace_def)

text \<open>
  C6. Indentation repair is idempotent: on every text, \<^verbatim>\<open>indent_empty_lines\<close> applied
  twice gives what it gives applied once.
\<close>

theorem C6_indent_empty_lines_idempotent:
  "indent_empty_lines (indent_empty_lines s compiler) compiler = indent_empty_lines s compiler"
  by (rule indent_empty_lines_idem)

lemma str_split_indent_empty_lines:
  assumes "t \<noteq> []"
  shows "str_split (indent_empty_lines t c) = result_lines (str_split t)"
proof (cases "last (str_split t) = []")
  case True
  let ?L = "butlast (str_split t)"
  let ?R = "result_lines ?L"
  have L0: "str_split t = ?L @ [[]]"
    using True str_split_not_empty [of t] by (metis append_butlast_last_id)
  have "?L \<noteq> []"
  proof
    assume "?L = []"
    then have "str_split t = [[]]" using L0 by simp
    then have "str_join (str_split t) = []" by simp
    then show False using assms by (simp add: str_join_str_split)
  qed
  then have ne: "?R \<noteq> []" by (simp add: result_lines_eq_Nil)
  have nl: "\<forall>l \<in> set ?R. CHR 0x0A \<notin> set l"
    using result_lines_no_newline [of ?L] str_split_no_newline [of _ t]
    by (meson in_set_butlastD)
  have "str_split (indent_empty_lines t c) = ?R @ [[]]"
    using str_split_str_join [OF ne nl]
    by (simp add: indent_empty_lines_ends_with_newline [OF True] str_split_snoc_newline)
  also have "\<dots> = result_lines (?L @ [[]])"
    by (simp add: result_lines_snoc_blank)
  finally show ?thesis using L0 by simp
next
  case False
  let ?R = "result_lines (str_split t)"
  have nl: "\<forall>l \<in> set ?R. CHR 0x0A \<notin> set l"
    using result_lines_no_newline [of "str_split t"] str_split_no_newline [of _ t] by blast
  have ne: "?R \<noteq> []"
    by (simp add: result_lines_eq_Nil str_split_not_empty)
  show ?thesis
    using str_split_str_join [OF ne nl]
    by (simp add: indent_empty_lines_no_newline_at_end [OF False])
qed

lemma tabs_to_spaces_re_sub_eq:
  "tabs_to_spaces_re_sub line =
     replicate (4 * length (takeWhile (\<lambda>c. c = CHR 0x09) line)) CHR '' ''
       @ dropWhile (\<lambda>c. c = CHR 0x09) line"
  by (simp add: tabs_to_spaces_re_sub_def tab_to_space_def Let_def dropWhile_eq_drop mult.commute)

lemma tabs_to_spaces_re_sub_no_newline:
  "CHR 0x0A \<notin> set line \<Longrightarrow> CHR 0x0A \<notin> set (tabs_to_spaces_re_sub line)"
  unfolding tabs_to_spaces_re_sub_eq by (auto dest: set_dropWhileD)

lemma tabs_to_spaces_re_sub_eq_Nil: "tabs_to_spaces_re_sub line = [] \<longleftrightarrow> line = []"
  unfolding tabs_to_spaces_re_sub_eq
  by (cases line) auto

lemma str_split_leading_tabs_to_spaces:
  "str_split (leading_tabs_to_spaces s) = map tabs_to_spaces_re_sub (str_split s)"
proof -
  have "\<forall>l \<in> set (map tabs_to_spaces_re_sub (str_split s)). CHR 0x0A \<notin> set l"
    using str_split_no_newline [of _ s] tabs_to_spaces_re_sub_no_newline by auto
  moreover have "map tabs_to_spaces_re_sub (str_split s) \<noteq> []"
    by (simp add: str_split_not_empty)
  ultimately show ?thesis
    unfolding leading_tabs_to_spaces_def by (simp add: str_split_str_join)
qed

lemma leading_tabs_to_spaces_eq_Nil: "leading_tabs_to_spaces s = [] \<longleftrightarrow> s = []"
proof
  assume "leading_tabs_to_spaces s = []"
  then have "map tabs_to_spaces_re_sub (str_split s) = [[]]"
    unfolding leading_tabs_to_spaces_def str_join_eq_Nil
    by (simp add: str_split_not_empty)
  then have "str_split s = [[]]"
    by (cases "str_split s") (auto simp: tabs_to_spaces_re_sub_eq_Nil)
  then have "str_join (str_split s) = []" by simp
  then show "s = []" by (simp add: str_join_str_split)
next
  assume "s = []"
  then show "leading_tabs_to_spaces s = []"
    by (simp add: leading_tabs_to_spaces_def tabs_to_spaces_re_sub_def)
qed

lemma str_split_preprocess:
  assumes "s \<noteq> []"
  shows "str_split (preprocess s c) = result_lines (map tabs_to_spaces_re_sub (str_split s))"
  using assms
  by (simp add: preprocess_def str_split_indent_empty_lines leading_tabs_to_spaces_eq_Nil
      str_split_leading_tabs_to_spaces)

text \<open>
  C7. On every text but the empty one the pipeline does what the claim says. The lines of
  the text after the first step are the lines of the input, each with its leading run of
  tabs replaced by four spaces for each tab. The lines of the result are as many; a line
  that is empty after the first step becomes the shorter of the leading whitespace of the
  line before and of the line after (the one of the line before when they are as long,
  the empty string where there is no such line), and every other line, a line of
  whitespace too, is unchanged. On the empty text the code does something else: the result
  is a line feed, a text of one line more than the input.
\<close>

theorem C7_preprocess_lines:
  "(s \<noteq> [] \<longrightarrow>
      str_split (leading_tabs_to_spaces s) =
        map (\<lambda>line. replicate (4 * length (takeWhile (\<lambda>c. c = CHR 0x09) line)) CHR '' ''
               @ dropWhile (\<lambda>c. c = CHR 0x09) line) (str_split s)
      \<and> length (str_split (preprocess s compiler)) = length (str_split (leading_tabs_to_spaces s))
      \<and> (\<forall>i < length (str_split (leading_tabs_to_spaces s)).
            str_split (preprocess s compiler) ! i =
              (if str_split (leading_tabs_to_spaces s) ! i = []
               then min_key_len
                 (indent_empty_lines_re_match (line_before (str_split (leading_tabs_to_spaces s)) i))
                 (indent_empty_lines_re_match (line_after (str_split (leading_tabs_to_spaces s)) i))
               else str_split (leading_tabs_to_spaces s) ! i)))
   \<and> preprocess [] compiler = [CHR 0x0A]
   \<and> str_split (preprocess [] compiler) \<noteq> str_split (leading_tabs_to_spaces [])"
proof (intro conjI impI allI)
  show "str_split (leading_tabs_to_spaces s) =
        map (\<lambda>line. replicate (4 * length (takeWhile (\<lambda>c. c = CHR 0x09) line)) CHR '' ''
               @ dropWhile (\<lambda>c. c = CHR 0x09) line) (str_split s)"
    by (simp add: str_split_leading_tabs_to_spaces tabs_to_spaces_re_sub_eq)
next
  assume "s \<noteq> []"
  then show "length (str_split (preprocess s compiler)) = length (str_split (leading_tabs_to_spaces s))"
    by (simp add: str_split_preprocess str_split_leading_tabs_to_spaces length_result_lines)
next
  fix i
  assume s: "s \<noteq> []" and i: "i < length (str_split (leading_tabs_to_spaces s))"
  have "str_split (preprocess s compiler) = result_lines (str_split (leading_tabs_to_spaces s))"
    using s by (simp add: str_split_preprocess str_split_leading_tabs_to_spaces)
  then show "str_split (preprocess s compiler) ! i =
              (if str_split (leading_tabs_to_spaces s) ! i = []
               then min_key_len
                 (indent_empty_lines_re_match (line_before (str_split (leading_tabs_to_spaces s)) i))
                 (indent_empty_lines_re_match (line_after (str_split (leading_tabs_to_spaces s)) i))
               else str_split (leading_tabs_to_spaces s) ! i)"
    using result_lines_nth [OF i] by simp
next
  show p: "preprocess [] compiler = [CHR 0x0A]"
    by (simp add: preprocess_def leading_tabs_to_spaces_def tabs_to_spaces_re_sub_def
        indent_empty_lines_def result_lines_def)
  show "str_split (preprocess [] compiler) \<noteq> str_split (leading_tabs_to_spaces [])"
    by (simp add: p leading_tabs_to_spaces_def tabs_to_spaces_re_sub_def)
qed

theorem C7_preprocess_lines_witness:
  "str_split (leading_tabs_to_spaces ([CHR 0x09] @ ''a'' @ [CHR 0x0A, CHR 0x0A, CHR 0x09, CHR 0x09] @ ''b'')) =
     [''    a'', [], ''        b'']
   \<and> str_split (preprocess ([CHR 0x09] @ ''a'' @ [CHR 0x0A, CHR 0x0A, CHR 0x09, CHR 0x09] @ ''b'') ()) ! 1 =
     ''    ''"
proof -
  let ?s = "[CHR 0x09] @ ''a'' @ [CHR 0x0A, CHR 0x0A, CHR 0x09, CHR 0x09] @ ''b''"
  have h: "?s \<noteq> []" by simp
  note t = C7_preprocess_lines [where s = ?s and compiler = "()", THEN conjunct1, THEN mp, OF h]
  have ls: "str_split (leading_tabs_to_spaces ?s) = [''    a'', [], ''        b'']"
    using t [THEN conjunct1] by (simp add: eval_nat_numeral)
  have "str_split (preprocess ?s ()) ! 1 = ''    ''"
    using t [THEN conjunct2, THEN conjunct2, THEN spec, of 1] ls
    by (simp add: line_before_def line_after_def min_key_len_def
        indent_empty_lines_re_match_def isspace_def)
  then show ?thesis using ls by simp
qed


lemma unparse_each_raises:
  "unparse_each unparse xs = Inl err \<Longrightarrow> \<exists>x \<in> set xs. unparse x = Inl err"
  by (induction xs) (auto split: sum.splits)
























subsection \<open>Properties of the file watching\<close>

lemma serve_all_None: "serve_all os reqs None = Inr None"
  by (induction reqs) (simp_all add: serve_def)

lemma activate_twice_with_watchdog:
  "serve_all os [Activate, Activate] (ModuleChangedEventHandler True os [] cb) =
     Inl (ValueError ''is already activated.'')"
  by (simp add: ModuleChangedEventHandler_def serve_def activate_def)

text \<open>
  C9. Without watchdog the construction of the watcher raises nothing and gives \<^verbatim>\<open>None\<close>,
  and every sequence of tracking, activation and deactivation requests to this watcher does
  nothing and raises nothing.
\<close>

theorem C9_watchdog_absent_no_op:
  "ModuleChangedEventHandler False os paths cb = None
   \<and> serve_all os reqs (ModuleChangedEventHandler False os paths cb) = Inr None"
  by (simp add: ModuleChangedEventHandler_def serve_all_None)

end
